theory Spec2Isabelle
  imports Main
begin

section \<open>The superscript extension: data model\<close>

text \<open>
  The package recognises \<^verbatim>\<open>^text^\<close> in a line of inline text and renders it as
  \<^verbatim>\<open><sup>text</sup>\<close>. Its two functions with content are
  \<^verbatim>\<open>superscriptParser.Parse\<close> and
  \<^verbatim>\<open>SuperscriptHTMLRenderer.renderSuperscript\<close> in \<^verbatim>\<open>superscript.go\<close>.

  Go's \<^verbatim>\<open>[]byte\<close> is a \<^typ>\<open>string\<close> (a list of 8-bit \<^typ>\<open>char\<close>), Go's
  \<^verbatim>\<open>int\<close> and \<^verbatim>\<open>rune\<close> are \<^typ>\<open>int\<close> (no arithmetic of the package
  can overflow: the only sums are offsets into the source buffer), and the one
  conversion to \<^verbatim>\<open>uint32\<close>, inside \<^verbatim>\<open>unicode.IsSpace\<close>, has its
  wrap-around written out. A run-time panic of Go (an index or a slice out of
  range) is a value of type \<open>panic\<close>, so that a function that may panic returns
  \<open>panic + 'a\<close>.
\<close>

type_synonym rune = int

datatype panic = IndexOutOfRange | SliceBoundsOutOfRange

definition caret :: char where
  "caret = CHR ''^''"

text \<open>The conversion \<^verbatim>\<open>rune(b)\<close> of a byte: its value, 0 to 255.\<close>

definition rune_of_byte :: "char \<Rightarrow> rune" where
  "rune_of_byte b = of_char b"

text \<open>\<^verbatim>\<open>s[i]\<close>: panics unless \<^verbatim>\<open>0 <= i < len(s)\<close>.\<close>

definition byte_at :: "string \<Rightarrow> int \<Rightarrow> panic + char" where
  "byte_at s i =
     (if 0 \<le> i \<and> i < int (length s) then Inr (s ! nat i) else Inl IndexOutOfRange)"

text \<open>
  \<^verbatim>\<open>s[lo:hi]\<close>. Go panics unless \<^verbatim>\<open>0 <= lo <= hi <= cap(s)\<close>; the capacity of
  the line is the host's business, so the model panics already when \<open>hi\<close> is beyond
  the length, which is the stricter check.
\<close>

definition byte_slice :: "string \<Rightarrow> int \<Rightarrow> int \<Rightarrow> panic + string" where
  "byte_slice s lo hi =
     (if 0 \<le> lo \<and> lo \<le> hi \<and> hi \<le> int (length s)
      then Inr (take (nat (hi - lo)) (drop (nat lo) s))
      else Inl SliceBoundsOutOfRange)"

subsection \<open>The standard library's whitespace test\<close>

text \<open>
  \<^verbatim>\<open>unicode.IsSpace\<close> belongs to Go's standard library. In the Latin-1 range it
  is a switch over eight code points; beyond it, it looks the rune up in the table
  \<^verbatim>\<open>White_Space\<close>, comparing as \<^verbatim>\<open>uint32\<close> so that a negative rune is never
  a space. The table's entries above Latin-1 are U+1680, U+2000 to U+200A, U+2028,
  U+2029, U+202F, U+205F and U+3000.
\<close>

definition uint32 :: "int \<Rightarrow> int" where
  "uint32 r = r mod 4294967296"

definition unicode_IsSpace :: "rune \<Rightarrow> bool" where
  "unicode_IsSpace r =
     (if uint32 r \<le> 0xFF
      then r = 0x09 \<or> r = 0x0A \<or> r = 0x0B \<or> r = 0x0C \<or> r = 0x0D \<or> r = 0x20
           \<or> r = 0x85 \<or> r = 0xA0
      else uint32 r \<le> 0x3000 \<and>
           (r = 0x1680 \<or> (0x2000 \<le> r \<and> r \<le> 0x200A) \<or> r = 0x2028 \<or> r = 0x2029
            \<or> r = 0x202F \<or> r = 0x205F \<or> r = 0x3000))"

text \<open>
  The host hands the scanner UTF-8 text. \<^verbatim>\<open>utf8.AppendRune\<close> of the standard
  library gives the bytes of a code point: one byte below U+0080, two below
  U+0800, three below U+10000, four up to U+10FFFF; a rune that is no code point
  (negative, too large, or a surrogate) is written as U+FFFD.
\<close>

definition utf8_EncodeRune :: "rune \<Rightarrow> string" where
  "utf8_EncodeRune r =
     (if 0 \<le> r \<and> r < 0x80 then [char_of r]
      else if 0 \<le> r \<and> r < 0x800
        then [char_of (0xC0 + r div 64), char_of (0x80 + r mod 64)]
      else if r < 0 \<or> 0x10FFFF < r \<or> (0xD800 \<le> r \<and> r \<le> 0xDFFF)
        then [CHR 0xEF, CHR 0xBF, CHR 0xBD]
      else if r < 0x10000
        then [char_of (0xE0 + r div 4096), char_of (0x80 + r div 64 mod 64),
              char_of (0x80 + r mod 64)]
      else [char_of (0xF0 + r div 262144), char_of (0x80 + r div 4096 mod 64),
            char_of (0x80 + r div 64 mod 64), char_of (0x80 + r mod 64)])"

subsection \<open>Segments, nodes, the reader\<close>

text \<open>
  \<^verbatim>\<open>text.Segment\<close> of the host: a half-open range of offsets into the source
  buffer. \<^verbatim>\<open>WithStart\<close> and \<^verbatim>\<open>WithStop\<close> return a copy with one end
  replaced.
\<close>

record Segment =
  Start :: int
  Stop :: int

definition WithStart :: "int \<Rightarrow> Segment \<Rightarrow> Segment" where
  "WithStart v t = t\<lparr>Start := v\<rparr>"

definition WithStop :: "int \<Rightarrow> Segment \<Rightarrow> Segment" where
  "WithStop v t = t\<lparr>Stop := v\<rparr>"

text \<open>
  The superscript \<^verbatim>\<open>Node\<close> embeds \<^verbatim>\<open>ast.BaseInline\<close>; what the package
  reads and writes of it are its children and its attributes. The only child it
  ever gets is the text node made by \<^verbatim>\<open>ast.NewTextSegment\<close>. The attribute
  slice is \<^verbatim>\<open>nil\<close> (\<open>None\<close>) until a later pass attaches one.
\<close>

datatype Text = NewTextSegment Segment

type_synonym Attribute = "string \<times> string"

record Node =
  children :: "Text list"
  attributes :: "Attribute list option"

definition NewSuperscriptNode :: Node where
  "NewSuperscriptNode = \<lparr>children = [], attributes = None\<rparr>"

definition AppendChild :: "Node \<Rightarrow> Text \<Rightarrow> Node" where
  "AppendChild n c = n\<lparr>children := children n @ [c]\<rparr>"

text \<open>
  \<^verbatim>\<open>text.Reader\<close> is the host's. The model holds what the reader answers when
  \<^verbatim>\<open>Parse\<close> is entered, the rune before the current position and the rest of
  the current line with its segment, and counts the bytes \<^verbatim>\<open>Advance\<close> has
  been asked to move over. The line starts at the current position, so its byte
  \<open>i\<close> is the source's byte at offset \<open>Start segment + i\<close>.
\<close>

record Reader =
  preceding :: rune
  line :: string
  segment :: Segment
  advanced :: int

definition PrecendingCharacter :: "Reader \<Rightarrow> rune" where
  "PrecendingCharacter block = preceding block"

definition PeekLine :: "Reader \<Rightarrow> string \<times> Segment" where
  "PeekLine block = (line block, segment block)"

definition Advance :: "int \<Rightarrow> Reader \<Rightarrow> Reader" where
  "Advance n block = block\<lparr>advanced := advanced block + n\<rparr>"

text \<open>
  A reader that stands at offset \<open>off\<close> of the source, after the rune \<open>r\<close>,
  with \<open>ln\<close> left of the current line, and has not been advanced yet.
\<close>

definition reader_at :: "rune \<Rightarrow> string \<Rightarrow> int \<Rightarrow> Reader" where
  "reader_at r ln off =
     \<lparr>preceding = r, line = ln,
      segment = \<lparr>Start = off, Stop = off + int (length ln)\<rparr>, advanced = 0\<rparr>"

section \<open>The scanner\<close>

text \<open>
  The search for the closing caret (lines 99 to 105): \<open>i\<close> runs from \<open>start\<close>
  while it is below \<^verbatim>\<open>len(line)\<close>; the first caret sets \<open>end\<close> and breaks.
  The function returns the value of \<open>end\<close> after the loop.
\<close>

function closing_loop :: "string \<Rightarrow> int \<Rightarrow> int \<Rightarrow> panic + int" where
  "closing_loop ln i end =
     (if i < int (length ln)
      then (case byte_at ln i of
              Inl e \<Rightarrow> Inl e
            | Inr b \<Rightarrow> if b = caret then Inr i else closing_loop ln (i + 1) end)
      else Inr end)"
  by pat_completeness auto
termination
  by (relation "measure (\<lambda>(ln, i, end). nat (int (length ln) - i))") auto

text \<open>
  The whitespace check over the content (lines 120 to 124): \<open>True\<close> when the
  loop body returns \<^verbatim>\<open>nil\<close>, \<open>False\<close> when the loop runs to its end.
\<close>

primrec content_loop :: "string \<Rightarrow> bool" where
  "content_loop [] = False"
| "content_loop (b # bs) =
     (if unicode_IsSpace (rune_of_byte b) then True else content_loop bs)"

text \<open>
  Lines 135 to 149: the node is made, the reader moves over the opening caret,
  the text child covering the content is attached, and the reader moves over the
  content and the closing caret.
\<close>

definition make_node :: "Reader \<Rightarrow> Segment \<Rightarrow> int \<Rightarrow> int \<Rightarrow> Node \<times> Reader" where
  "make_node block seg start end =
     (let node = NewSuperscriptNode;
          block1 = Advance 1 block;
          tempSegment = WithStart (Start seg + start) seg;
          contentSegment = WithStop (Start seg + end) tempSegment;
          node1 = AppendChild node (NewTextSegment contentSegment);
          block2 = Advance end block1
      in (node1, block2))"

text \<open>
  A panic ends the function that raises it and every caller: \<open>and_then\<close>
  passes the panic on, or hands the value to the rest of the function.
\<close>

definition and_then :: "panic + 'a \<Rightarrow> ('a \<Rightarrow> panic + 'b) \<Rightarrow> panic + 'b" where
  "and_then r f = (case r of Inl e \<Rightarrow> Inl e | Inr x \<Rightarrow> f x)"

text \<open>
  The test \<^verbatim>\<open>len(line) >= 2 && line[1] == '^'\<close> of line 91: \<^verbatim>\<open>line[1]\<close>
  is read only when the length allows it, as \<^verbatim>\<open>&&\<close> does.
\<close>

definition two_carets :: "string \<Rightarrow> panic + bool" where
  "two_carets ln =
     (if int (length ln) \<ge> 2
      then and_then (byte_at ln 1) (\<lambda>b. Inr (b = caret))
      else Inr False)"

text \<open>
  \<^verbatim>\<open>Parse\<close>, statement by statement. The result is the node returned
  (\<open>None\<close> for \<^verbatim>\<open>nil\<close>) and the reader as the call leaves it. The source's
  variable \<^verbatim>\<open>before\<close> is \<open>before_ch\<close> here; its arguments \<^verbatim>\<open>parent\<close> and
  \<^verbatim>\<open>pc\<close>, which the body never uses, are left out.
\<close>

definition Parse :: "Reader \<Rightarrow> panic + (Node option \<times> Reader)" where
  "Parse block =
     (let before_ch = PrecendingCharacter block;
          ln = fst (PeekLine block);
          seg = snd (PeekLine block);
          start = 1
      in
      if int (length ln) < 2 then Inr (None, block)
      else if unicode_IsSpace before_ch \<or> before_ch = - 1 then Inr (None, block)
      else and_then (two_carets ln) (\<lambda>doubled.
        if doubled then Inr (None, block)
        else and_then (closing_loop ln start (- 1)) (\<lambda>end.
          if end = - 1 then Inr (None, block)
          else if end \<le> start then Inr (None, block)
          else and_then (byte_slice ln start end) (\<lambda>content.
            if content_loop content then Inr (None, block)
            else and_then (byte_at content 0) (\<lambda>c0.
              let firstChar = rune_of_byte c0 in
              if firstChar = rune_of_byte caret then Inr (None, block)
              else (let (node, block2) = make_node block seg start end
                    in Inr (Some node, block2)))))))"

subsection \<open>The scanner without its last guards\<close>

text \<open>
  Two variants of \<^verbatim>\<open>Parse\<close>, made to be compared with it. The first one is
  \<^verbatim>\<open>Parse\<close> with lines 126 to 130 taken out (the test of the content's first
  character); the second one has lines 112 to 115 taken out as well (the test
  \<^verbatim>\<open>end <= start\<close>). Everything else is as in \<^verbatim>\<open>Parse\<close>.
\<close>

definition Parse_without_step7 :: "Reader \<Rightarrow> panic + (Node option \<times> Reader)" where
  "Parse_without_step7 block =
     (let before_ch = PrecendingCharacter block;
          ln = fst (PeekLine block);
          seg = snd (PeekLine block);
          start = 1
      in
      if int (length ln) < 2 then Inr (None, block)
      else if unicode_IsSpace before_ch \<or> before_ch = - 1 then Inr (None, block)
      else and_then (two_carets ln) (\<lambda>doubled.
        if doubled then Inr (None, block)
        else and_then (closing_loop ln start (- 1)) (\<lambda>end.
          if end = - 1 then Inr (None, block)
          else if end \<le> start then Inr (None, block)
          else and_then (byte_slice ln start end) (\<lambda>content.
            if content_loop content then Inr (None, block)
            else (let (node, block2) = make_node block seg start end
                  in Inr (Some node, block2))))))"

definition Parse_unguarded :: "Reader \<Rightarrow> panic + (Node option \<times> Reader)" where
  "Parse_unguarded block =
     (let before_ch = PrecendingCharacter block;
          ln = fst (PeekLine block);
          seg = snd (PeekLine block);
          start = 1
      in
      if int (length ln) < 2 then Inr (None, block)
      else if unicode_IsSpace before_ch \<or> before_ch = - 1 then Inr (None, block)
      else and_then (two_carets ln) (\<lambda>doubled.
        if doubled then Inr (None, block)
        else and_then (closing_loop ln start (- 1)) (\<lambda>end.
          if end = - 1 then Inr (None, block)
          else and_then (byte_slice ln start end) (\<lambda>content.
            if content_loop content then Inr (None, block)
            else (let (node, block2) = make_node block seg start end
                  in Inr (Some node, block2))))))"

subsection \<open>What a caller sees of a scan\<close>

text \<open>
  The bytes a segment covers. The host reads them from the source buffer; since
  the line starts at offset \<open>Start (segment block)\<close> of that buffer, they are the
  bytes of the line from \<open>Start t - Start (segment block)\<close> on.
\<close>

definition segment_bytes :: "Reader \<Rightarrow> Segment \<Rightarrow> string" where
  "segment_bytes block t =
     take (nat (Stop t - Start t)) (drop (nat (Start t - Start (segment block))) (line block))"

fun text_bytes :: "Reader \<Rightarrow> Text \<Rightarrow> string" where
  "text_bytes block (NewTextSegment t) = segment_bytes block t"

text \<open>The content of a span: the bytes of its children, in order.\<close>

definition span_content :: "Reader \<Rightarrow> Node \<Rightarrow> string" where
  "span_content block n = concat (map (text_bytes block) (children n))"

text \<open>
  The number of bytes a call has consumed, and the part of the line it has left
  to the host.
\<close>

definition consumed :: "Reader \<Rightarrow> Reader \<Rightarrow> int" where
  "consumed block block' = advanced block' - advanced block"

definition unconsumed :: "Reader \<Rightarrow> Reader \<Rightarrow> string" where
  "unconsumed block block' = drop (nat (consumed block block')) (line block)"

text \<open>
  The number of times the body of the search loop of lines 100 to 105 runs when
  it is entered with \<open>i\<close>: the loop of \<open>closing_loop\<close>, counting.
\<close>

function closing_loop_steps :: "string \<Rightarrow> int \<Rightarrow> nat" where
  "closing_loop_steps ln i =
     (if i < int (length ln)
      then (case byte_at ln i of
              Inl e \<Rightarrow> 1
            | Inr b \<Rightarrow> if b = caret then 1 else 1 + closing_loop_steps ln (i + 1))
      else 0)"
  by pat_completeness auto
termination
  by (relation "measure (\<lambda>(ln, i). nat (int (length ln) - i))") auto

text \<open>Three delimiters in a row somewhere in a line.\<close>

fun three_carets :: "string \<Rightarrow> bool" where
  "three_carets (a # b # c # zs) =
     ((a = caret \<and> b = caret \<and> c = caret) \<or> three_carets (b # c # zs))"
| "three_carets zs = False"

section \<open>The renderer\<close>

text \<open>
  \<^verbatim>\<open>util.BufWriter\<close> is the bytes written so far; the source drops the error
  results of its writes, and so does the model.
\<close>

type_synonym BufWriter = string

definition WriteString :: "string \<Rightarrow> BufWriter \<Rightarrow> BufWriter" where
  "WriteString s w = w @ s"

definition WriteByte :: "char \<Rightarrow> BufWriter \<Rightarrow> BufWriter" where
  "WriteByte c w = w @ [c]"

datatype WalkStatus = WalkStop | WalkSkipChildren | WalkContinue

text \<open>
  \<^verbatim>\<open>renderSuperscript\<close>. The host's \<^verbatim>\<open>html.RenderAttributes\<close>, called with
  the package's \<^verbatim>\<open>SuperscriptAttributeFilter\<close>, is the parameter
  \<open>RenderAttributes\<close>: it takes the writer and the node and returns the writer
  after its writes. The result is the writer, the walk status and the error
  (\<open>None\<close> for \<^verbatim>\<open>nil\<close>).
\<close>

definition renderSuperscript ::
  "(BufWriter \<Rightarrow> Node \<Rightarrow> BufWriter) \<Rightarrow> BufWriter \<Rightarrow> string \<Rightarrow> Node \<Rightarrow> bool
     \<Rightarrow> BufWriter \<times> WalkStatus \<times> string option" where
  "renderSuperscript RenderAttributes w source n entering =
     (if entering then
        (if attributes n \<noteq> None then
           (let w1 = WriteString ''<sup'' w;
                w2 = RenderAttributes w1 n;
                w3 = WriteByte (CHR ''>'') w2
            in (w3, WalkContinue, None))
         else (WriteString ''<sup>'' w, WalkContinue, None))
      else (WriteString ''</sup>'' w, WalkContinue, None))"

text \<open>
  The host's walk over one span node, as \<^verbatim>\<open>ast.Walk\<close> does it: the callback
  on entering; unless it stopped the walk or skipped the children, every child in
  order, each through the host's text renderer; the callback on leaving. The
  parameter \<open>text_html\<close> gives the bytes the host's text renderer writes for a text
  child (its content, escaped).
\<close>

definition render_span ::
  "(BufWriter \<Rightarrow> Node \<Rightarrow> BufWriter) \<Rightarrow> (string \<Rightarrow> Text \<Rightarrow> string) \<Rightarrow> BufWriter \<Rightarrow> string
     \<Rightarrow> Node \<Rightarrow> BufWriter" where
  "render_span RenderAttributes text_html w source n =
     (case renderSuperscript RenderAttributes w source n True of
        (w1, status, err) \<Rightarrow>
          if err \<noteq> None \<or> status = WalkStop then w1
          else
            (let w2 = (if status \<noteq> WalkSkipChildren
                       then fold (\<lambda>c acc. WriteString (text_html source c) acc) (children n) w1
                       else w1)
             in fst (renderSuperscript RenderAttributes w2 source n False)))"

section \<open>Properties of the scanner\<close>

declare closing_loop.simps [simp del]

lemma byte_at_in_range:
  "0 \<le> i \<Longrightarrow> i < int (length s) \<Longrightarrow> byte_at s i = Inr (s ! nat i)"
  by (simp add: byte_at_def)

lemma closing_loop_none:
  "0 \<le> i \<Longrightarrow> caret \<notin> set (drop (nat i) ln) \<Longrightarrow> closing_loop ln i e = Inr e"
proof (induction ln i e rule: closing_loop.induct)
  case (1 ln i e)
  show ?case
  proof (cases "i < int (length ln)")
    case False
    then show ?thesis by (subst closing_loop.simps) simp
  next
    case True
    then have lt: "nat i < length ln" using 1(2) by linarith
    have at: "byte_at ln i = Inr (ln ! nat i)"
      using True 1(2) by (rule byte_at_in_range[rotated])
    have "ln ! nat i \<in> set (drop (nat i) ln)"
      using lt by (metis Cons_nth_drop_Suc list.set_intros(1))
    with 1(3) have ne: "ln ! nat i \<noteq> caret" by metis
    have "set (drop (nat (i + 1)) ln) \<subseteq> set (drop (nat i) ln)"
      using 1(2) by (intro set_drop_subset_set_drop) linarith
    with 1(3) have "caret \<notin> set (drop (nat (i + 1)) ln)" by blast
    with 1(1)[OF True at ne] 1(2) have "closing_loop ln (i + 1) e = Inr e" by simp
    with True at ne show ?thesis by (subst closing_loop.simps) simp
  qed
qed

lemma closing_loop_found:
  "0 \<le> i \<Longrightarrow> nat i \<le> length pre \<Longrightarrow> caret \<notin> set (drop (nat i) pre) \<Longrightarrow> ln = pre @ caret # rest \<Longrightarrow>
   closing_loop ln i e = Inr (int (length pre))"
proof (induction ln i e rule: closing_loop.induct)
  case (1 ln i e)
  have lt: "i < int (length ln)" using 1(3,5) by simp
  have at: "byte_at ln i = Inr (ln ! nat i)"
    using lt 1(2) by (rule byte_at_in_range[rotated])
  show ?case
  proof (cases "nat i = length pre")
    case True
    then have "ln ! nat i = caret" using 1(5) by simp
    moreover have "i = int (length pre)" using True 1(2) by linarith
    ultimately show ?thesis using lt at by (subst closing_loop.simps) simp
  next
    case False
    then have lp: "nat i < length pre" using 1(3) by linarith
    then have eq: "ln ! nat i = pre ! nat i" using 1(5) by (simp add: nth_append)
    have "pre ! nat i \<in> set (drop (nat i) pre)"
      using lp by (metis Cons_nth_drop_Suc list.set_intros(1))
    with 1(4) eq have ne: "ln ! nat i \<noteq> caret" by metis
    have "set (drop (nat (i + 1)) pre) \<subseteq> set (drop (nat i) pre)"
      using 1(2) by (intro set_drop_subset_set_drop) linarith
    with 1(4) have nc: "caret \<notin> set (drop (nat (i + 1)) pre)" by blast
    have "nat (i + 1) \<le> length pre" using lp 1(2) by linarith
    with 1(1)[OF lt at ne _ _ nc 1(5)] 1(2)
    have "closing_loop ln (i + 1) e = Inr (int (length pre))" by simp
    with lt at ne show ?thesis by (subst closing_loop.simps) simp
  qed
qed

lemma rune_of_byte_eq_iff: "rune_of_byte a = rune_of_byte b \<longleftrightarrow> a = b"
  by (simp add: rune_of_byte_def)

lemma two_carets_long:
  "two_carets (x # y # zs) = Inr (y = caret)"
  by (simp add: two_carets_def byte_at_def and_then_def)

lemma make_node_eq:
  "make_node block seg 1 e =
     (\<lparr>children = [NewTextSegment \<lparr>Start = Start seg + 1, Stop = Start seg + e\<rparr>],
        attributes = None\<rparr>,
      block\<lparr>advanced := advanced block + 1 + e\<rparr>)"
  by (simp add: make_node_def NewSuperscriptNode_def AppendChild_def Advance_def
      WithStart_def WithStop_def Let_def)

lemma Parse_short:
  "length (line block) < 2 \<Longrightarrow> Parse block = Inr (None, block)"
  by (simp add: Parse_def PeekLine_def Let_def)

lemma Parse_doubled:
  "line block = x # caret # zs \<Longrightarrow> Parse block = Inr (None, block)"
  by (simp add: Parse_def PeekLine_def Let_def two_carets_long and_then_def)

lemma Parse_unterminated:
  assumes "line block = x # zs" and "caret \<notin> set zs"
  shows "Parse block = Inr (None, block)"
proof (cases zs)
  case Nil
  with assms show ?thesis by (simp add: Parse_short)
next
  case (Cons y ys)
  have "closing_loop (line block) 1 (- 1) = Inr (- 1)"
    using assms by (intro closing_loop_none) simp_all
  moreover have "two_carets (line block) = Inr False"
    using assms Cons by (auto simp: two_carets_long)
  ultimately show ?thesis
    by (simp add: Parse_def PeekLine_def Let_def and_then_def)
qed

lemma Parse_delimited:
  assumes ln: "line block = x # C @ caret # rest"
    and ne: "C \<noteq> []" and nc: "caret \<notin> set C"
    and pre: "\<not> unicode_IsSpace (preceding block)" "preceding block \<noteq> - 1"
  shows "Parse block =
     (if content_loop C then Inr (None, block)
      else Inr (Some \<lparr>children = [NewTextSegment
                        \<lparr>Start = Start (segment block) + 1,
                         Stop = Start (segment block) + (1 + int (length C))\<rparr>],
                     attributes = None\<rparr>,
                block\<lparr>advanced := advanced block + 1 + (1 + int (length C))\<rparr>))"
proof -
  obtain y ys where C: "C = y # ys" using ne by (cases C) auto
  have y: "y \<noteq> caret" using nc C by auto
  have len: "\<not> int (length (line block)) < 2" using ln C by simp
  have two: "two_carets (line block) = Inr False"
    using ln C y by (simp add: two_carets_long)
  have "closing_loop (line block) 1 (- 1) = Inr (int (length (x # C)))"
    using nc ln by (intro closing_loop_found[where rest = rest]) simp_all
  then have loop: "closing_loop (line block) 1 (- 1) = Inr (1 + int (length C))" by simp
  have slice: "byte_slice (line block) 1 (1 + int (length C)) = Inr C"
    using ln by (simp add: byte_slice_def)
  have first: "byte_at C 0 = Inr y" using C by (simp add: byte_at_def)
  show ?thesis
    using len pre two loop slice first y ne
    by (simp add: Parse_def PeekLine_def PrecendingCharacter_def Let_def and_then_def
        rune_of_byte_eq_iff make_node_eq)
qed

lemma line_shapes:
  fixes ln :: string
  shows "length ln < 2 \<or> (\<exists>x zs. ln = x # caret # zs) \<or> (\<exists>x zs. ln = x # zs \<and> caret \<notin> set zs)
     \<or> (\<exists>x C rest. ln = x # C @ caret # rest \<and> C \<noteq> [] \<and> caret \<notin> set C)"
proof (cases ln)
  case Nil
  then show ?thesis by simp
next
  case (Cons x zs)
  show ?thesis
  proof (cases "caret \<in> set zs")
    case False
    with Cons show ?thesis by blast
  next
    case True
    then obtain C rest where zs: "zs = C @ caret # rest" and nc: "caret \<notin> set C"
      by (blast dest: split_list_first)
    show ?thesis
    proof (cases C)
      case Nil
      with Cons zs show ?thesis by auto
    next
      case (Cons y ys)
      then have "C \<noteq> []" by simp
      with \<open>ln = x # zs\<close> zs nc show ?thesis by blast
    qed
  qed
qed

lemma Parse_preceding_reject:
  assumes "unicode_IsSpace (preceding block) \<or> preceding block = - 1"
  shows "Parse block = Inr (None, block)"
  using assms by (simp add: Parse_def PrecendingCharacter_def PeekLine_def Let_def)

lemma content_loop_iff:
  "content_loop bs \<longleftrightarrow> (\<exists>b\<in>set bs. unicode_IsSpace (rune_of_byte b))"
  by (induction bs) auto

lemma span_content_single:
  assumes "line block = x # C @ zs"
  shows "span_content block
           \<lparr>children = [NewTextSegment \<lparr>Start = Start (segment block) + 1,
                                        Stop = Start (segment block) + (1 + int (length C))\<rparr>],
              attributes = None\<rparr> = C"
  using assms by (simp add: span_content_def segment_bytes_def)

lemma unconsumed_after_span:
  assumes "line block = x # C @ y # rest"
  shows "unconsumed block (block\<lparr>advanced := advanced block + 1 + (1 + int (length C))\<rparr>) = rest"
proof -
  have "nat (1 + (1 + int (length C))) = Suc (Suc (length C))" by simp
  then show ?thesis using assms by (simp add: unconsumed_def consumed_def)
qed

lemma Parse_cases:
  "Parse block = Inr (None, block) \<or>
   (\<exists>x C rest. line block = x # C @ caret # rest \<and> C \<noteq> [] \<and> caret \<notin> set C
      \<and> \<not> content_loop C
      \<and> \<not> unicode_IsSpace (preceding block) \<and> preceding block \<noteq> - 1
      \<and> Parse block =
          Inr (Some \<lparr>children = [NewTextSegment
                        \<lparr>Start = Start (segment block) + 1,
                         Stop = Start (segment block) + (1 + int (length C))\<rparr>],
                     attributes = None\<rparr>,
                block\<lparr>advanced := advanced block + 1 + (1 + int (length C))\<rparr>))"
proof (cases "unicode_IsSpace (preceding block) \<or> preceding block = - 1")
  case True
  then show ?thesis by (simp add: Parse_preceding_reject)
next
  case False
  then have pre: "\<not> unicode_IsSpace (preceding block)" "preceding block \<noteq> - 1" by simp_all
  from line_shapes[of "line block"] show ?thesis
  proof (elim disjE exE conjE)
    assume "length (line block) < 2"
    then show ?thesis by (simp add: Parse_short)
  next
    fix x zs assume "line block = x # caret # zs"
    then show ?thesis by (simp add: Parse_doubled)
  next
    fix x zs assume "line block = x # zs" "caret \<notin> set zs"
    then show ?thesis by (simp add: Parse_unterminated)
  next
    fix x C rest
    assume d: "line block = x # C @ caret # rest" "C \<noteq> []" "caret \<notin> set C"
    show ?thesis
    proof (cases "content_loop C")
      case True
      with Parse_delimited[OF d pre] show ?thesis by simp
    next
      case False
      with Parse_delimited[OF d pre] d pre show ?thesis by auto
    qed
  qed
qed

lemma Parse_second_caret:
  assumes "1 < length (line block)" and "line block ! 1 = caret"
  shows "Parse block = Inr (None, block)"
proof -
  obtain x y zs where "line block = x # y # zs"
    using assms(1) by (cases "line block"; cases "tl (line block)") auto
  with assms(2) show ?thesis by (simp add: Parse_doubled)
qed

lemma Parse_Some_shape:
  assumes "Parse block = Inr (Some node, block')"
  shows "\<exists>x C rest. line block = x # C @ caret # rest \<and> C \<noteq> [] \<and> caret \<notin> set C
      \<and> \<not> content_loop C
      \<and> \<not> unicode_IsSpace (preceding block) \<and> preceding block \<noteq> - 1
      \<and> node = \<lparr>children = [NewTextSegment
                        \<lparr>Start = Start (segment block) + 1,
                         Stop = Start (segment block) + (1 + int (length C))\<rparr>],
                     attributes = None\<rparr>
      \<and> block' = block\<lparr>advanced := advanced block + 1 + (1 + int (length C))\<rparr>"
  using Parse_cases[of block] assms by auto

lemma Parse_never_panics: "Parse block \<noteq> Inl e"
  using Parse_cases[of block] by auto

lemma Parse_None_same:
  assumes "Parse block = Inr (None, block')"
  shows "block' = block"
  using Parse_cases[of block] assms by auto

declare closing_loop_steps.simps [simp del]

lemma delimited_path:
  assumes ln: "ln = x # C @ caret # rest" and ne: "C \<noteq> []" and nc: "caret \<notin> set C"
  shows "\<not> int (length ln) < 2"
    and "two_carets ln = Inr False"
    and "closing_loop ln 1 (- 1) = Inr (1 + int (length C))"
    and "byte_slice ln 1 (1 + int (length C)) = Inr C"
    and "byte_at C 0 = Inr (hd C)"
    and "hd C \<noteq> caret"
proof -
  obtain y ys where C: "C = y # ys" using ne by (cases C) auto
  have y: "y \<noteq> caret" using nc C by auto
  then show "hd C \<noteq> caret" using C by simp
  show "\<not> int (length ln) < 2" using ln C by simp
  show "two_carets ln = Inr False"
    using ln C y by (simp add: two_carets_long)
  have "closing_loop ln 1 (- 1) = Inr (int (length (x # C)))"
    using nc ln by (intro closing_loop_found[where rest = rest]) simp_all
  then show "closing_loop ln 1 (- 1) = Inr (1 + int (length C))" by simp
  show "byte_slice ln 1 (1 + int (length C)) = Inr C"
    using ln by (simp add: byte_slice_def)
  show "byte_at C 0 = Inr (hd C)" using C by (simp add: byte_at_def)
qed

lemma unterminated_path:
  assumes "ln = x # zs" and "caret \<notin> set zs"
  shows "closing_loop ln 1 (- 1) = Inr (- 1)"
  using assms by (intro closing_loop_none) simp_all

lemma variants_agree:
  "Parse_without_step7 block = Parse block \<and> Parse_unguarded block = Parse block"
proof -
  from line_shapes[of "line block"] show ?thesis
  proof (elim disjE exE conjE)
    assume "length (line block) < 2"
    then show ?thesis
      by (simp add: Parse_def Parse_without_step7_def Parse_unguarded_def PeekLine_def Let_def)
  next
    fix x zs assume "line block = x # caret # zs"
    then show ?thesis
      by (simp add: Parse_def Parse_without_step7_def Parse_unguarded_def PeekLine_def Let_def
          two_carets_long and_then_def)
  next
    fix x zs assume a: "line block = x # zs" "caret \<notin> set zs"
    from unterminated_path[OF a] show ?thesis
      by (simp add: Parse_def Parse_without_step7_def Parse_unguarded_def PeekLine_def Let_def
          and_then_def split: sum.splits)
  next
    fix x C rest
    assume d: "line block = x # C @ caret # rest" "C \<noteq> []" "caret \<notin> set C"
    from delimited_path[OF d] d(2) show ?thesis
      by (simp add: Parse_def Parse_without_step7_def Parse_unguarded_def PeekLine_def Let_def
          and_then_def rune_of_byte_eq_iff)
  qed
qed

lemma guards_never_fire:
  assumes "\<not> int (length ln) < 2" and "two_carets ln = Inr False"
    and "closing_loop ln 1 (- 1) = Inr e" and "e \<noteq> - 1"
  shows "\<not> e \<le> 1 \<and> (\<exists>content c0. byte_slice ln 1 e = Inr content \<and> content \<noteq> []
            \<and> byte_at content 0 = Inr c0 \<and> rune_of_byte c0 \<noteq> rune_of_byte caret)"
proof -
  from line_shapes[of ln] show ?thesis
  proof (elim disjE exE conjE)
    assume "length ln < 2"
    with assms(1) show ?thesis by simp
  next
    fix x zs assume "ln = x # caret # zs"
    with assms(2) show ?thesis by (simp add: two_carets_long)
  next
    fix x zs assume a: "ln = x # zs" "caret \<notin> set zs"
    from unterminated_path[OF a] assms(3,4) show ?thesis by simp
  next
    fix x C rest
    assume d: "ln = x # C @ caret # rest" "C \<noteq> []" "caret \<notin> set C"
    from delimited_path[OF d] assms(3) have e: "e = 1 + int (length C)" by simp
    from delimited_path[OF d] d(2) show ?thesis
      unfolding e by (simp add: rune_of_byte_eq_iff)
  qed
qed

lemma closing_loop_steps_bound:
  "0 \<le> i \<Longrightarrow> closing_loop_steps ln i \<le> length ln - nat i"
proof (induction ln i rule: closing_loop_steps.induct)
  case (1 ln i)
  show ?case
  proof (cases "i < int (length ln)")
    case False
    then show ?thesis by (subst closing_loop_steps.simps) simp
  next
    case True
    have at: "byte_at ln i = Inr (ln ! nat i)"
      using True 1(2) by (simp add: byte_at_def)
    show ?thesis
    proof (cases "ln ! nat i = caret")
      case c: True
      have "closing_loop_steps ln i = 1"
        using True at c by (subst closing_loop_steps.simps) simp
      moreover have "1 \<le> length ln - nat i" using True 1(2) by linarith
      ultimately show ?thesis by simp
    next
      case c: False
      have "closing_loop_steps ln i = 1 + closing_loop_steps ln (i + 1)"
        using True at c by (subst closing_loop_steps.simps) simp
      moreover have "closing_loop_steps ln (i + 1) \<le> length ln - nat (i + 1)"
        using 1(1)[OF True at c] 1(2) by simp
      moreover have "1 + (length ln - nat (i + 1)) \<le> length ln - nat i"
        using True 1(2) by linarith
      ultimately show ?thesis by linarith
    qed
  qed
qed

lemma Parse_only_carets:
  assumes "set (line block) \<subseteq> {caret}"
  shows "Parse block = Inr (None, block)"
proof (cases "length (line block) < 2")
  case True
  then show ?thesis by (rule Parse_short)
next
  case False
  then obtain x y zs where ln: "line block = x # y # zs"
    by (cases "line block"; cases "tl (line block)") auto
  with assms have "y = caret" by simp
  with ln show ?thesis by (simp add: Parse_doubled)
qed

lemma fold_WriteString:
  "fold (\<lambda>c acc. WriteString (f c) acc) cs w = w @ concat (map f cs)"
  by (induction cs arbitrary: w) (simp_all add: WriteString_def)

subsection \<open>Bytes, not code points\<close>

text \<open>
  The whitespace test of the content (line 121) looks at each byte of the line on
  its own, as if it were a code point. Read byte by byte, the scanner does what
  its rules say: when the rest of the line is \<^verbatim>\<open>^C^\<close> (followed by anything),
  \<open>C\<close> is not empty, no byte of \<open>C\<close> is a caret or passes the test, and the
  character before the opening caret allows a span, the scanner returns the span
  with content \<open>C\<close> and consumes \<open>length C + 2\<close> bytes.
\<close>

lemma Parse_matches_bytes:
  assumes "line block = caret # C @ caret # rest"
    and "C \<noteq> []"
    and "\<forall>b\<in>set C. \<not> unicode_IsSpace (rune_of_byte b) \<and> b \<noteq> caret"
    and "\<not> unicode_IsSpace (preceding block)" and "preceding block \<noteq> - 1"
  shows "\<exists>node block'. Parse block = Inr (Some node, block')
           \<and> span_content block node = C
           \<and> consumed block block' = int (length C) + 2"
proof -
  have nc: "caret \<notin> set C" and ns: "\<not> content_loop C"
    using assms(3) by (auto simp: content_loop_iff)
  let ?node = "\<lparr>children = [NewTextSegment
                        \<lparr>Start = Start (segment block) + 1,
                         Stop = Start (segment block) + (1 + int (length C))\<rparr>],
                     attributes = None\<rparr>"
  let ?block' = "block\<lparr>advanced := advanced block + 1 + (1 + int (length C))\<rparr>"
  have "Parse block = Inr (Some ?node, ?block')"
    using Parse_delimited[OF assms(1,2) nc assms(4,5)] ns by simp
  moreover have "span_content block ?node = C"
    using assms(1) by (rule span_content_single)
  moreover have "consumed block ?block' = int (length C) + 2"
    by (simp add: consumed_def)
  ultimately show ?thesis by blast
qed

text \<open>
  And when some byte between the opening caret and the first caret after it
  passes the test, the scanner returns no match; no span that it returns has
  such a byte in its content.
\<close>

lemma Parse_rejects_whitespace_byte:
  "(\<forall>C rest. line block = caret # C @ caret # rest \<and> caret \<notin> set C
        \<and> (\<exists>b\<in>set C. unicode_IsSpace (rune_of_byte b))
      \<longrightarrow> Parse block = Inr (None, block))
   \<and> (\<forall>node block'. Parse block = Inr (Some node, block')
      \<longrightarrow> \<not> (\<exists>b\<in>set (span_content block node). unicode_IsSpace (rune_of_byte b)))"
proof -
  have rejects: "Parse block = Inr (None, block)"
    if ln: "line block = caret # C @ caret # rest" and nc: "caret \<notin> set C"
      and sp: "\<exists>b\<in>set C. unicode_IsSpace (rune_of_byte b)" for C rest
  proof (cases "unicode_IsSpace (preceding block) \<or> preceding block = - 1")
    case True
    then show ?thesis by (rule Parse_preceding_reject)
  next
    case False
    then have pre: "\<not> unicode_IsSpace (preceding block)" "preceding block \<noteq> - 1"
      by simp_all
    have ne: "C \<noteq> []" using sp by auto
    have "content_loop C" using sp by (simp add: content_loop_iff)
    with Parse_delimited[OF ln ne nc pre] show ?thesis by simp
  qed
  have clean: "\<not> (\<exists>b\<in>set (span_content block node). unicode_IsSpace (rune_of_byte b))"
    if "Parse block = Inr (Some node, block')" for node block'
  proof -
    from Parse_Some_shape[OF that]
    obtain x C rest where ln: "line block = x # C @ caret # rest"
      and ns: "\<not> content_loop C"
      and node: "node = \<lparr>children = [NewTextSegment
                        \<lparr>Start = Start (segment block) + 1,
                         Stop = Start (segment block) + (1 + int (length C))\<rparr>],
                     attributes = None\<rparr>"
      by blast
    have "span_content block node = C"
      unfolding node using ln by (rule span_content_single)
    with ns show ?thesis by (simp add: content_loop_iff)
  qed
  from rejects clean show ?thesis by blast
qed

text \<open>
  A byte is not a character, though. The second byte of the UTF-8 form of U+00E0
  is 0xA0, which the test takes for a no-break space; the bytes of U+2003, an em
  space, are each taken for something else.
\<close>

lemma utf8_EncodeRune_a_grave: "utf8_EncodeRune 0xE0 = [CHR 0xC3, CHR 0xA0]"
  by (simp add: utf8_EncodeRune_def char_of_def)

lemma utf8_EncodeRune_em_space: "utf8_EncodeRune 0x2003 = [CHR 0xE2, CHR 0x80, CHR 0x83]"
  by (simp add: utf8_EncodeRune_def char_of_def)

lemma content_loop_bytewise:
  "content_loop (utf8_EncodeRune 0xE0)"
  "\<not> content_loop (CHR ''a'' # utf8_EncodeRune 0x2003 @ [CHR ''b''])"
  by (simp_all add: utf8_EncodeRune_a_grave utf8_EncodeRune_em_space
      unicode_IsSpace_def rune_of_byte_def uint32_def)

section \<open>The claims about the scanner\<close>

lemmas scenario_defs = caret_def unicode_IsSpace_def rune_of_byte_def uint32_def reader_at_def

text \<open>
  C1 says that a line \<^verbatim>\<open>X^C^\<close>, with \<open>X\<close> a character that is not whitespace
  and \<open>C\<close> one or more characters that are neither whitespace nor the delimiter,
  is matched, with content \<open>C\<close>. The scanner does not do so for every such
  \<open>C\<close>. The letter U+00E0 is not whitespace for \<^verbatim>\<open>unicode.IsSpace\<close>, and
  not the delimiter; before the opening caret it lets a span open. As the content,
  in the line \<^verbatim>\<open>x^\<close>U+00E0\<^verbatim>\<open>^\<close>, it is rejected: the scanner returns
  \<^verbatim>\<open>nil\<close> and consumes nothing, because the byte 0xA0 of its UTF-8 form
  passes for whitespace.
\<close>

theorem Parse_rejects_letter_content:
  "\<not> unicode_IsSpace 0xE0 \<and> 0xE0 \<noteq> rune_of_byte caret
   \<and> utf8_EncodeRune 0xE0 = [CHR 0xC3, CHR 0xA0]
   \<and> Parse (reader_at (rune_of_byte CHR ''x'') (caret # utf8_EncodeRune 0xE0 @ [caret]) 1)
       = Inr (None,
              reader_at (rune_of_byte CHR ''x'') (caret # utf8_EncodeRune 0xE0 @ [caret]) 1)
   \<and> Parse (reader_at 0xE0 ''^2^'' 2)
       = Inr (Some \<lparr>children = [NewTextSegment \<lparr>Start = 3, Stop = 4\<rparr>], attributes = None\<rparr>,
              (reader_at 0xE0 ''^2^'' 2)\<lparr>advanced := 3\<rparr>)"
proof -
  have "Parse (reader_at (rune_of_byte CHR ''x'') (caret # utf8_EncodeRune 0xE0 @ [caret]) 1)
       = Inr (None,
              reader_at (rune_of_byte CHR ''x'') (caret # utf8_EncodeRune 0xE0 @ [caret]) 1)"
    using Parse_delimited
      [of "reader_at (rune_of_byte CHR ''x'') (caret # utf8_EncodeRune 0xE0 @ [caret]) 1"
          caret "utf8_EncodeRune 0xE0" "[]"]
    by (simp add: utf8_EncodeRune_a_grave scenario_defs)
  moreover have "Parse (reader_at 0xE0 ''^2^'' 2)
       = Inr (Some \<lparr>children = [NewTextSegment \<lparr>Start = 3, Stop = 4\<rparr>], attributes = None\<rparr>,
              (reader_at 0xE0 ''^2^'' 2)\<lparr>advanced := 3\<rparr>)"
    using Parse_delimited [of "reader_at 0xE0 ''^2^'' 2" "CHR ''^''" "''2''" "[]"]
    by (simp add: scenario_defs)
  moreover have "\<not> unicode_IsSpace 0xE0 \<and> 0xE0 \<noteq> rune_of_byte caret"
    by (simp add: scenario_defs)
  ultimately show ?thesis by (simp add: utf8_EncodeRune_a_grave)
qed

text \<open>
  C2 says that a content with a whitespace character in it never matches. The
  scanner matches some. U+2003, the em space, is whitespace for
  \<^verbatim>\<open>unicode.IsSpace\<close>; before the opening caret it keeps a span from
  opening. Inside the content, in the line \<^verbatim>\<open>x^a\<close>U+2003\<^verbatim>\<open>b^\<close>, it does
  not: the scanner returns a span whose content holds the em space and consumes
  the seven bytes up to the closing caret, because none of the three bytes of its
  UTF-8 form passes for whitespace.
\<close>

theorem Parse_accepts_em_space_content:
  "unicode_IsSpace 0x2003
   \<and> utf8_EncodeRune 0x2003 = [CHR 0xE2, CHR 0x80, CHR 0x83]
   \<and> Parse (reader_at (rune_of_byte CHR ''x'')
               (caret # CHR ''a'' # utf8_EncodeRune 0x2003 @ CHR ''b'' # [caret]) 1)
       = Inr (Some \<lparr>children = [NewTextSegment \<lparr>Start = 2, Stop = 7\<rparr>], attributes = None\<rparr>,
              (reader_at (rune_of_byte CHR ''x'')
                 (caret # CHR ''a'' # utf8_EncodeRune 0x2003 @ CHR ''b'' # [caret]) 1)
              \<lparr>advanced := 7\<rparr>)
   \<and> span_content
         (reader_at (rune_of_byte CHR ''x'')
            (caret # CHR ''a'' # utf8_EncodeRune 0x2003 @ CHR ''b'' # [caret]) 1)
         \<lparr>children = [NewTextSegment \<lparr>Start = 2, Stop = 7\<rparr>], attributes = None\<rparr>
       = CHR ''a'' # utf8_EncodeRune 0x2003 @ [CHR ''b'']
   \<and> Parse (reader_at 0x2003 ''^2^'' 4) = Inr (None, reader_at 0x2003 ''^2^'' 4)"
proof -
  have "Parse (reader_at (rune_of_byte CHR ''x'')
               (caret # CHR ''a'' # utf8_EncodeRune 0x2003 @ CHR ''b'' # [caret]) 1)
       = Inr (Some \<lparr>children = [NewTextSegment \<lparr>Start = 2, Stop = 7\<rparr>], attributes = None\<rparr>,
              (reader_at (rune_of_byte CHR ''x'')
                 (caret # CHR ''a'' # utf8_EncodeRune 0x2003 @ CHR ''b'' # [caret]) 1)
              \<lparr>advanced := 7\<rparr>)"
    using Parse_delimited
      [of "reader_at (rune_of_byte CHR ''x'')
             (caret # CHR ''a'' # utf8_EncodeRune 0x2003 @ CHR ''b'' # [caret]) 1"
          caret "CHR ''a'' # utf8_EncodeRune 0x2003 @ [CHR ''b'']" "[]"]
    by (simp add: utf8_EncodeRune_em_space scenario_defs)
  moreover have "span_content
         (reader_at (rune_of_byte CHR ''x'')
            (caret # CHR ''a'' # utf8_EncodeRune 0x2003 @ CHR ''b'' # [caret]) 1)
         \<lparr>children = [NewTextSegment \<lparr>Start = 2, Stop = 7\<rparr>], attributes = None\<rparr>
       = CHR ''a'' # utf8_EncodeRune 0x2003 @ [CHR ''b'']"
    by (simp add: span_content_def segment_bytes_def reader_at_def utf8_EncodeRune_em_space)
  moreover have "Parse (reader_at 0x2003 ''^2^'' 4) = Inr (None, reader_at 0x2003 ''^2^'' 4)"
    by (rule Parse_preceding_reject) (simp add: scenario_defs)
  moreover have "unicode_IsSpace 0x2003"
    by (simp add: scenario_defs)
  ultimately show ?thesis by (simp add: utf8_EncodeRune_em_space)
qed

text \<open>
  C3: when the character before the opening caret is whitespace or the
  start-of-line sentinel \<open>- 1\<close>, the scanner returns no match, for every line: no
  span opens at the start of a line or right after whitespace.
\<close>

theorem Parse_rejects_after_space_or_line_start:
  assumes "unicode_IsSpace (preceding block) \<or> preceding block = - 1"
  shows "Parse block = Inr (None, block)"
  using assms by (rule Parse_preceding_reject)

theorem Parse_rejects_after_space_or_line_start_witness:
  "(unicode_IsSpace (preceding (reader_at (- 1) ''^2^'' 0))
      \<or> preceding (reader_at (- 1) ''^2^'' 0) = - 1)
   \<and> Parse (reader_at (- 1) ''^2^'' 0) = Inr (None, reader_at (- 1) ''^2^'' 0)
   \<and> (unicode_IsSpace (preceding (reader_at (rune_of_byte CHR '' '') ''^2^'' 2))
      \<or> preceding (reader_at (rune_of_byte CHR '' '') ''^2^'' 2) = - 1)
   \<and> Parse (reader_at (rune_of_byte CHR '' '') ''^2^'' 2)
       = Inr (None, reader_at (rune_of_byte CHR '' '') ''^2^'' 2)"
  using Parse_rejects_after_space_or_line_start [of "reader_at (- 1) ''^2^'' 0"]
        Parse_rejects_after_space_or_line_start [of "reader_at (rune_of_byte CHR '' '') ''^2^'' 2"]
  by (simp add: scenario_defs)

text \<open>
  C4: when the byte right after the opening delimiter is a caret, the scanner
  returns no match and leaves the reader as it was (so \<^verbatim>\<open>x^^2^\<close> does not
  match at its first caret); and the content of a span that the scanner returns
  is never empty.
\<close>

theorem Parse_rejects_doubled_caret:
  "(1 < length (line block) \<and> line block ! 1 = caret \<longrightarrow> Parse block = Inr (None, block))
   \<and> (\<forall>node block'. Parse block = Inr (Some node, block') \<longrightarrow> span_content block node \<noteq> [])"
proof (intro conjI allI impI)
  assume "1 < length (line block) \<and> line block ! 1 = caret"
  then show "Parse block = Inr (None, block)" by (simp add: Parse_second_caret)
next
  fix node block'
  assume "Parse block = Inr (Some node, block')"
  from Parse_Some_shape[OF this]
  obtain x C rest where ln: "line block = x # C @ caret # rest" and ne: "C \<noteq> []"
    and node: "node = \<lparr>children = [NewTextSegment
                        \<lparr>Start = Start (segment block) + 1,
                         Stop = Start (segment block) + (1 + int (length C))\<rparr>],
                     attributes = None\<rparr>"
    by blast
  have "span_content block node = C"
    unfolding node using ln by (rule span_content_single)
  with ne show "span_content block node \<noteq> []" by simp
qed

theorem Parse_rejects_doubled_caret_witness:
  "1 < length (line (reader_at (rune_of_byte CHR ''x'') ''^^2^'' 1))
   \<and> line (reader_at (rune_of_byte CHR ''x'') ''^^2^'' 1) ! 1 = caret
   \<and> Parse (reader_at (rune_of_byte CHR ''x'') ''^^2^'' 1)
       = Inr (None, reader_at (rune_of_byte CHR ''x'') ''^^2^'' 1)
   \<and> Parse (reader_at (rune_of_byte CHR ''x'') ''^2^'' 1)
       = Inr (Some \<lparr>children = [NewTextSegment \<lparr>Start = 2, Stop = 3\<rparr>], attributes = None\<rparr>,
              (reader_at (rune_of_byte CHR ''x'') ''^2^'' 1)\<lparr>advanced := 3\<rparr>)
   \<and> span_content (reader_at (rune_of_byte CHR ''x'') ''^2^'' 1)
        \<lparr>children = [NewTextSegment \<lparr>Start = 2, Stop = 3\<rparr>], attributes = None\<rparr> \<noteq> []"
proof -
  have p: "Parse (reader_at (rune_of_byte CHR ''x'') ''^2^'' 1)
       = Inr (Some \<lparr>children = [NewTextSegment \<lparr>Start = 2, Stop = 3\<rparr>], attributes = None\<rparr>,
              (reader_at (rune_of_byte CHR ''x'') ''^2^'' 1)\<lparr>advanced := 3\<rparr>)"
    using Parse_delimited [of "reader_at (rune_of_byte CHR ''x'') ''^2^'' 1" "CHR ''^''" "''2''" "[]"]
    by (simp add: scenario_defs)
  show ?thesis
    using Parse_rejects_doubled_caret [of "reader_at (rune_of_byte CHR ''x'') ''^^2^'' 1"]
      Parse_rejects_doubled_caret [of "reader_at (rune_of_byte CHR ''x'') ''^2^'' 1"] p
    by (simp add: scenario_defs)
qed

text \<open>
  C5: the scanner never panics, it returns either a node or \<^verbatim>\<open>nil\<close>; when it
  returns \<^verbatim>\<open>nil\<close> the reader is exactly as it was before the call, so nothing
  has been consumed; and an opening caret with no other caret after it on the
  line (as in \<^verbatim>\<open>x^2\<close>) gives \<^verbatim>\<open>nil\<close>.
\<close>

theorem Parse_reject_is_plain_no_match:
  "(\<exists>node block'. Parse block = Inr (node, block'))
   \<and> (\<forall>block'. Parse block = Inr (None, block') \<longrightarrow> block' = block \<and> consumed block block' = 0)
   \<and> (\<forall>C. line block = caret # C \<and> caret \<notin> set C \<longrightarrow> Parse block = Inr (None, block))"
proof -
  have total: "\<exists>node block'. Parse block = Inr (node, block')"
    using Parse_cases[of block] by blast
  have same: "\<forall>block'. Parse block = Inr (None, block') \<longrightarrow>
                block' = block \<and> consumed block block' = 0"
    by (auto dest: Parse_None_same simp: consumed_def)
  have open_end: "\<forall>C. line block = caret # C \<and> caret \<notin> set C \<longrightarrow>
                    Parse block = Inr (None, block)"
    by (simp add: Parse_unterminated)
  from total same open_end show ?thesis by blast
qed

theorem Parse_reject_is_plain_no_match_witness:
  "line (reader_at (rune_of_byte CHR ''x'') ''^2'' 1) = caret # ''2''
   \<and> caret \<notin> set ''2''
   \<and> Parse (reader_at (rune_of_byte CHR ''x'') ''^2'' 1)
       = Inr (None, reader_at (rune_of_byte CHR ''x'') ''^2'' 1)
   \<and> consumed (reader_at (rune_of_byte CHR ''x'') ''^2'' 1)
        (reader_at (rune_of_byte CHR ''x'') ''^2'' 1) = 0"
  using Parse_reject_is_plain_no_match [of "reader_at (rune_of_byte CHR ''x'') ''^2'' 1"]
  by (simp add: scenario_defs)

text \<open>
  C6: when the scanner returns a span, the line is an opening byte, a content
  \<open>C\<close> without any caret, a caret, and a rest; the span's content is \<open>C\<close>, so the
  span ends at the first caret after the opening one and its content has no
  caret; the scanner has consumed up to and including that caret, and the rest,
  with every later caret, is left to the host.
\<close>

theorem Parse_ends_at_first_caret:
  assumes "Parse block = Inr (Some node, block')"
  shows "\<exists>x C rest. line block = x # C @ caret # rest \<and> caret \<notin> set C
           \<and> span_content block node = C
           \<and> consumed block block' = int (length C) + 2
           \<and> unconsumed block block' = rest"
proof -
  from Parse_Some_shape[OF assms]
  obtain x C rest where ln: "line block = x # C @ caret # rest" and nc: "caret \<notin> set C"
    and node: "node = \<lparr>children = [NewTextSegment
                        \<lparr>Start = Start (segment block) + 1,
                         Stop = Start (segment block) + (1 + int (length C))\<rparr>],
                     attributes = None\<rparr>"
    and block': "block' = block\<lparr>advanced := advanced block + 1 + (1 + int (length C))\<rparr>"
    by blast
  have "span_content block node = C"
    unfolding node using ln by (rule span_content_single)
  moreover have "unconsumed block block' = rest"
    unfolding block' using ln by (rule unconsumed_after_span)
  moreover have "consumed block block' = int (length C) + 2"
    unfolding block' by (simp add: consumed_def)
  ultimately show ?thesis using ln nc by blast
qed

theorem Parse_ends_at_first_caret_witness:
  "Parse (reader_at (rune_of_byte CHR ''a'') ''^2^2^^'' 1)
       = Inr (Some \<lparr>children = [NewTextSegment \<lparr>Start = 2, Stop = 3\<rparr>], attributes = None\<rparr>,
              (reader_at (rune_of_byte CHR ''a'') ''^2^2^^'' 1)\<lparr>advanced := 3\<rparr>)
   \<and> (\<exists>x C rest. line (reader_at (rune_of_byte CHR ''a'') ''^2^2^^'' 1) = x # C @ caret # rest
         \<and> caret \<notin> set C
         \<and> span_content (reader_at (rune_of_byte CHR ''a'') ''^2^2^^'' 1)
              \<lparr>children = [NewTextSegment \<lparr>Start = 2, Stop = 3\<rparr>], attributes = None\<rparr> = C
         \<and> consumed (reader_at (rune_of_byte CHR ''a'') ''^2^2^^'' 1)
              ((reader_at (rune_of_byte CHR ''a'') ''^2^2^^'' 1)\<lparr>advanced := 3\<rparr>) = int (length C) + 2
         \<and> unconsumed (reader_at (rune_of_byte CHR ''a'') ''^2^2^^'' 1)
              ((reader_at (rune_of_byte CHR ''a'') ''^2^2^^'' 1)\<lparr>advanced := 3\<rparr>) = rest)"
proof -
  have p: "Parse (reader_at (rune_of_byte CHR ''a'') ''^2^2^^'' 1)
       = Inr (Some \<lparr>children = [NewTextSegment \<lparr>Start = 2, Stop = 3\<rparr>], attributes = None\<rparr>,
              (reader_at (rune_of_byte CHR ''a'') ''^2^2^^'' 1)\<lparr>advanced := 3\<rparr>)"
    using Parse_delimited [of "reader_at (rune_of_byte CHR ''a'') ''^2^2^^'' 1" "CHR ''^''" "''2''" "''2^^''"]
    by (simp add: scenario_defs)
  from Parse_ends_at_first_caret [OF p] p show ?thesis by simp
qed

text \<open>
  C7, as the specification states it, says that some line with three or more
  carets in a row is scanned differently with and without the test of the
  content's first character (lines 126 to 130). There is no such line: the
  statement is false.
\<close>

theorem step7_decides_nothing:
  "\<not> (\<exists>block. three_carets (line block) \<and> Parse block \<noteq> Parse_without_step7 block)"
  using variants_agree by simp

text \<open>
  C7, amended: the test of the content's first character is redundant on every
  input, lines with three or more carets in a row included; the scanner with the
  test and the scanner without it return the same result for every reader.
\<close>

theorem Parse_without_step7_same:
  "Parse_without_step7 block = Parse block"
  using variants_agree by simp

text \<open>
  C8: for every reader the scanner returns a result, a node or \<^verbatim>\<open>nil\<close>, and
  never panics; its search loop, which is a terminating function, runs its body
  at most as many times as the line has bytes; an empty line, a line of one byte
  and a line made of carets only all give \<^verbatim>\<open>nil\<close>.
\<close>

theorem Parse_total:
  "(\<exists>node block'. Parse block = Inr (node, block'))
   \<and> closing_loop_steps (line block) 1 \<le> length (line block)
   \<and> (length (line block) \<le> 1 \<longrightarrow> Parse block = Inr (None, block))
   \<and> (set (line block) \<subseteq> {caret} \<longrightarrow> Parse block = Inr (None, block))"
proof -
  have "\<exists>node block'. Parse block = Inr (node, block')"
    using Parse_cases[of block] by blast
  moreover have "closing_loop_steps (line block) 1 \<le> length (line block)"
    using closing_loop_steps_bound[of 1 "line block"] by simp
  moreover have "length (line block) \<le> 1 \<longrightarrow> Parse block = Inr (None, block)"
    by (simp add: Parse_short)
  moreover have "set (line block) \<subseteq> {caret} \<longrightarrow> Parse block = Inr (None, block)"
    by (simp add: Parse_only_carets)
  ultimately show ?thesis by blast
qed

theorem Parse_total_witness:
  "length (line (reader_at (rune_of_byte CHR ''x'') [] 4)) \<le> 1
   \<and> Parse (reader_at (rune_of_byte CHR ''x'') [] 4)
       = Inr (None, reader_at (rune_of_byte CHR ''x'') [] 4)
   \<and> length (line (reader_at (rune_of_byte CHR ''x'') ''^'' 4)) \<le> 1
   \<and> Parse (reader_at (rune_of_byte CHR ''x'') ''^'' 4)
       = Inr (None, reader_at (rune_of_byte CHR ''x'') ''^'' 4)
   \<and> set (line (reader_at (rune_of_byte CHR ''x'') ''^^^'' 4)) \<subseteq> {caret}
   \<and> Parse (reader_at (rune_of_byte CHR ''x'') ''^^^'' 4)
       = Inr (None, reader_at (rune_of_byte CHR ''x'') ''^^^'' 4)
   \<and> closing_loop_steps (line (reader_at (rune_of_byte CHR ''x'') ''^^^'' 4)) 1 \<le> 3"
  using Parse_total [of "reader_at (rune_of_byte CHR ''x'') [] 4"]
    Parse_total [of "reader_at (rune_of_byte CHR ''x'') ''^'' 4"]
    Parse_total [of "reader_at (rune_of_byte CHR ''x'') ''^^^'' 4"]
  by (simp add: reader_at_def caret_def)

text \<open>
  C10: whenever control reaches the test \<^verbatim>\<open>end <= start\<close>, that is, the line
  has at least two bytes, its second byte is not a caret and the search has found
  a closing caret at \<open>e\<close>, then \<open>e\<close> is at least 2, so the test fails, the
  content is not empty and its first byte is not a caret, so the test
  \<^verbatim>\<open>firstChar == '^'\<close> fails as well; and the scanner without the two tests
  returns the same result as \<^verbatim>\<open>Parse\<close> for every reader.
\<close>

theorem Parse_last_guards_unreachable:
  "(\<forall>e. \<not> int (length (line block)) < 2 \<and> two_carets (line block) = Inr False
         \<and> closing_loop (line block) 1 (- 1) = Inr e \<and> e \<noteq> - 1
       \<longrightarrow> 2 \<le> e \<and> \<not> e \<le> 1
           \<and> (\<exists>content c0. byte_slice (line block) 1 e = Inr content \<and> content \<noteq> []
                 \<and> byte_at content 0 = Inr c0 \<and> rune_of_byte c0 \<noteq> rune_of_byte caret))
   \<and> Parse_unguarded block = Parse block"
proof -
  have "\<forall>e. \<not> int (length (line block)) < 2 \<and> two_carets (line block) = Inr False
         \<and> closing_loop (line block) 1 (- 1) = Inr e \<and> e \<noteq> - 1
       \<longrightarrow> 2 \<le> e \<and> \<not> e \<le> 1
           \<and> (\<exists>content c0. byte_slice (line block) 1 e = Inr content \<and> content \<noteq> []
                 \<and> byte_at content 0 = Inr c0 \<and> rune_of_byte c0 \<noteq> rune_of_byte caret)"
  proof (intro allI impI)
    fix e
    assume a: "\<not> int (length (line block)) < 2 \<and> two_carets (line block) = Inr False
         \<and> closing_loop (line block) 1 (- 1) = Inr e \<and> e \<noteq> - 1"
    then have g: "\<not> e \<le> 1 \<and> (\<exists>content c0. byte_slice (line block) 1 e = Inr content
         \<and> content \<noteq> [] \<and> byte_at content 0 = Inr c0
         \<and> rune_of_byte c0 \<noteq> rune_of_byte caret)"
      by (intro guards_never_fire) simp_all
    then have "2 \<le> e" by linarith
    with g show "2 \<le> e \<and> \<not> e \<le> 1
           \<and> (\<exists>content c0. byte_slice (line block) 1 e = Inr content \<and> content \<noteq> []
                 \<and> byte_at content 0 = Inr c0 \<and> rune_of_byte c0 \<noteq> rune_of_byte caret)"
      by blast
  qed
  moreover have "Parse_unguarded block = Parse block"
    using variants_agree by simp
  ultimately show ?thesis by blast
qed

theorem Parse_last_guards_unreachable_witness:
  "\<not> int (length (line (reader_at (rune_of_byte CHR ''x'') ''^2^'' 1))) < 2
   \<and> two_carets (line (reader_at (rune_of_byte CHR ''x'') ''^2^'' 1)) = Inr False
   \<and> closing_loop (line (reader_at (rune_of_byte CHR ''x'') ''^2^'' 1)) 1 (- 1) = Inr 2
   \<and> (2::int) \<noteq> - 1
   \<and> \<not> (2::int) \<le> 1
   \<and> (\<exists>content c0. byte_slice (line (reader_at (rune_of_byte CHR ''x'') ''^2^'' 1)) 1 2 = Inr content
          \<and> content \<noteq> [] \<and> byte_at content 0 = Inr c0
          \<and> rune_of_byte c0 \<noteq> rune_of_byte caret)
   \<and> Parse_unguarded (reader_at (rune_of_byte CHR ''x'') ''^2^'' 1)
       = Parse (reader_at (rune_of_byte CHR ''x'') ''^2^'' 1)"
proof -
  have l: "closing_loop (line (reader_at (rune_of_byte CHR ''x'') ''^2^'' 1)) 1 (- 1) = Inr 2"
    using closing_loop_found [of 1 "''^2''" "''^2^''" "[]" "- 1"]
    by (simp add: reader_at_def caret_def)
  have t: "two_carets (line (reader_at (rune_of_byte CHR ''x'') ''^2^'' 1)) = Inr False"
    by (simp add: reader_at_def caret_def two_carets_long)
  have n: "\<not> int (length (line (reader_at (rune_of_byte CHR ''x'') ''^2^'' 1))) < 2"
    by (simp add: reader_at_def)
  from Parse_last_guards_unreachable [of "reader_at (rune_of_byte CHR ''x'') ''^2^'' 1"] l t n
  show ?thesis by auto
qed

section \<open>The claim about the renderer\<close>

text \<open>
  C9: for a node without attributes the callback writes exactly
  \<^verbatim>\<open><sup>\<close> on entering; on leaving it writes exactly \<^verbatim>\<open></sup>\<close>; both
  return \<^verbatim>\<open>WalkContinue\<close> and no error. Walked by the host, a node without
  attributes therefore renders as \<^verbatim>\<open><sup>\<close>, what the host writes for its
  children, and \<^verbatim>\<open></sup>\<close>, with nothing in between. For a node with
  attributes, entering writes \<^verbatim>\<open><sup\<close>, then what the host's attribute
  renderer writes, then \<^verbatim>\<open>>\<close>.
\<close>

theorem renderSuperscript_tags:
  "(attributes n = None \<longrightarrow>
      renderSuperscript RenderAttributes w source n True = (w @ ''<sup>'', WalkContinue, None))
   \<and> renderSuperscript RenderAttributes w source n False = (w @ ''</sup>'', WalkContinue, None)
   \<and> (attributes n = None \<longrightarrow>
        render_span RenderAttributes text_html w source n
          = w @ ''<sup>'' @ concat (map (text_html source) (children n)) @ ''</sup>'')
   \<and> (attributes n \<noteq> None \<longrightarrow>
        renderSuperscript RenderAttributes w source n True
          = (RenderAttributes (w @ ''<sup'') n @ ''>'', WalkContinue, None))"
  by (simp add: renderSuperscript_def render_span_def WriteString_def WriteByte_def
      fold_WriteString Let_def)

theorem renderSuperscript_tags_witness:
  "attributes \<lparr>children = [NewTextSegment \<lparr>Start = 2, Stop = 3\<rparr>], attributes = None\<rparr> = None
   \<and> renderSuperscript (\<lambda>w n. w) ''<p>x'' ''x^2^''
        \<lparr>children = [NewTextSegment \<lparr>Start = 2, Stop = 3\<rparr>], attributes = None\<rparr> True
       = (''<p>x<sup>'', WalkContinue, None)
   \<and> render_span (\<lambda>w n. w) (\<lambda>source. text_bytes (reader_at (rune_of_byte CHR ''x'') ''^2^'' 1))
        ''<p>x'' ''x^2^''
        \<lparr>children = [NewTextSegment \<lparr>Start = 2, Stop = 3\<rparr>], attributes = None\<rparr>
       = ''<p>x<sup>2</sup>''
   \<and> attributes \<lparr>children = [NewTextSegment \<lparr>Start = 2, Stop = 3\<rparr>],
                   attributes = Some [(''id'', ''n'')]\<rparr> \<noteq> None
   \<and> renderSuperscript (\<lambda>w n. w @ '' id=\"n\"'') ''<p>x'' ''x^2^''
        \<lparr>children = [NewTextSegment \<lparr>Start = 2, Stop = 3\<rparr>],
           attributes = Some [(''id'', ''n'')]\<rparr> True
       = (''<p>x<sup id=\"n\">'', WalkContinue, None)"
  using renderSuperscript_tags
          [of "\<lparr>children = [NewTextSegment \<lparr>Start = 2, Stop = 3\<rparr>], attributes = None\<rparr>"
              "\<lambda>w n. w" "''<p>x''" "''x^2^''"
              "\<lambda>source. text_bytes (reader_at (rune_of_byte CHR ''x'') ''^2^'' 1)"]
        renderSuperscript_tags
          [of "\<lparr>children = [NewTextSegment \<lparr>Start = 2, Stop = 3\<rparr>],
                 attributes = Some [(''id'', ''n'')]\<rparr>"
              "\<lambda>w n. w @ '' id=\"n\"''" "''<p>x''" "''x^2^''" "\<lambda>source c. []"]
  by (simp add: segment_bytes_def reader_at_def)

end
